theory Spec2Isabelle
  imports Complex_Main "HOL-Library.Log_Nat" "HOL-Library.Word"
begin

unbundle bit_operations_syntax

section \<open>JavaScript numbers\<close>

text \<open>
  A JavaScript Number is an IEEE-754 binary64 value. The finite ones are rationals, so a
  number is modelled as a rational or one of the three special values. The sign of zero is
  not modelled: every zero met below is a string length or the literal \<open>0\<close>, both \<open>+0\<close>.
\<close>

datatype number = Fin rat | PosInf | NegInf | NaN

definition pow2 :: "int \<Rightarrow> rat" where
  "pow2 e = (if 0 \<le> e then 2 ^ nat e else 1 / 2 ^ nat (- e))"

text \<open>For \<open>x > 0\<close>, the exponent \<open>e\<close> with \<open>2^e \<le> x < 2^(e+1)\<close>.\<close>

definition floor_log2 :: "rat \<Rightarrow> int" where
  "floor_log2 x = (if 1 \<le> x then bitlen \<lfloor>x\<rfloor> - 1 else - bitlen (\<lceil>1 / x\<rceil> - 1))"

definition round_half_even :: "rat \<Rightarrow> int" where
  "round_half_even x =
     (let f = \<lfloor>x\<rfloor>; d = x - of_int f
      in if d < 1 / 2 then f else if 1 / 2 < d then f + 1 else if even f then f else f + 1)"

text \<open>
  Rounding of an exact result to binary64, round-to-nearest, ties-to-even: 53 significant
  bits, least exponent \<open>-1074\<close> (subnormals), overflow to an infinity from \<open>2^1024\<close> on.
\<close>

definition fl64 :: "rat \<Rightarrow> number" where
  "fl64 x =
     (if x = 0 then Fin 0
      else let e = max (floor_log2 \<bar>x\<bar> - 52) (- 1074);
               m = round_half_even (x / pow2 e);
               y = of_int m * pow2 e
           in if pow2 1024 \<le> \<bar>y\<bar> then (if 0 < x then PosInf else NegInf) else Fin y)"

text \<open>The largest relative error of one rounding in the normal range.\<close>

definition unit_roundoff :: rat where
  "unit_roundoff = 1 / 2 ^ 53"

text \<open>The operators \<open>/\<close>, \<open>*\<close>, \<open>+\<close> and \<open>-\<close> of the language on numbers.\<close>

fun js_div :: "number \<Rightarrow> number \<Rightarrow> number" where
  "js_div NaN _ = NaN"
| "js_div _ NaN = NaN"
| "js_div (Fin x) (Fin y) =
     (if y = 0 then (if x = 0 then NaN else if 0 < x then PosInf else NegInf)
      else fl64 (x / y))"
| "js_div (Fin x) PosInf = Fin 0"
| "js_div (Fin x) NegInf = Fin 0"
| "js_div PosInf (Fin y) = (if 0 \<le> y then PosInf else NegInf)"
| "js_div NegInf (Fin y) = (if 0 \<le> y then NegInf else PosInf)"
| "js_div _ _ = NaN"

fun js_mul :: "number \<Rightarrow> number \<Rightarrow> number" where
  "js_mul NaN _ = NaN"
| "js_mul _ NaN = NaN"
| "js_mul (Fin x) (Fin y) = fl64 (x * y)"
| "js_mul (Fin x) PosInf = (if x = 0 then NaN else if 0 < x then PosInf else NegInf)"
| "js_mul (Fin x) NegInf = (if x = 0 then NaN else if 0 < x then NegInf else PosInf)"
| "js_mul PosInf (Fin y) = (if y = 0 then NaN else if 0 < y then PosInf else NegInf)"
| "js_mul NegInf (Fin y) = (if y = 0 then NaN else if 0 < y then NegInf else PosInf)"
| "js_mul PosInf PosInf = PosInf"
| "js_mul NegInf NegInf = PosInf"
| "js_mul _ _ = NegInf"

fun js_add :: "number \<Rightarrow> number \<Rightarrow> number" where
  "js_add NaN _ = NaN"
| "js_add _ NaN = NaN"
| "js_add (Fin x) (Fin y) = fl64 (x + y)"
| "js_add PosInf NegInf = NaN"
| "js_add NegInf PosInf = NaN"
| "js_add PosInf _ = PosInf"
| "js_add NegInf _ = NegInf"
| "js_add _ y = y"

fun js_neg :: "number \<Rightarrow> number" where
  "js_neg (Fin x) = Fin (- x)"
| "js_neg PosInf = NegInf"
| "js_neg NegInf = PosInf"
| "js_neg NaN = NaN"

definition js_sub :: "number \<Rightarrow> number \<Rightarrow> number" where
  "js_sub a b = js_add a (js_neg b)"

text \<open>The comparison \<open>a < b\<close>; any comparison with \<open>NaN\<close> is false.\<close>

fun js_less :: "number \<Rightarrow> number \<Rightarrow> bool" where
  "js_less NaN _ = False"
| "js_less _ NaN = False"
| "js_less (Fin x) (Fin y) = (x < y)"
| "js_less _ NegInf = False"
| "js_less PosInf _ = False"
| "js_less _ _ = True"

definition js_greater :: "number \<Rightarrow> number \<Rightarrow> bool" where
  "js_greater a b = js_less b a"

text \<open>\<open>Math.min\<close>, \<open>Math.max\<close> (two arguments) and \<open>Math.floor\<close>.\<close>

fun Math_min :: "number \<Rightarrow> number \<Rightarrow> number" where
  "Math_min NaN _ = NaN"
| "Math_min _ NaN = NaN"
| "Math_min a b = (if js_less b a then b else a)"

fun Math_max :: "number \<Rightarrow> number \<Rightarrow> number" where
  "Math_max NaN _ = NaN"
| "Math_max _ NaN = NaN"
| "Math_max a b = (if js_less a b then b else a)"

fun Math_floor :: "number \<Rightarrow> number" where
  "Math_floor (Fin x) = Fin (of_int \<lfloor>x\<rfloor>)"
| "Math_floor n = n"

text \<open>The length of a string as a number.\<close>

definition of_length :: "nat \<Rightarrow> number" where
  "of_length n = Fin (of_nat n)"


section \<open>Strings\<close>

text \<open>
  A string is a list of code units; \<open>char\<close> covers the code units \<open>0..255\<close>, on which
  the functions below agree with the language. \<open>is_ws\<close> is the class \<open>\s\<close> (white space and
  line terminators), \<open>is_line_term\<close> the characters that \<open>.\<close> does not match.
\<close>

abbreviation nl :: char where
  "nl \<equiv> CHR 0x0A"

definition is_ws :: "char \<Rightarrow> bool" where
  "is_ws c = (c \<in> set [CHR 0x09, CHR 0x0A, CHR 0x0B, CHR 0x0C, CHR 0x0D, CHR 0x20, CHR 0xA0])"

definition is_line_term :: "char \<Rightarrow> bool" where
  "is_line_term c = (c = CHR 0x0A \<or> c = CHR 0x0D)"

definition trim :: "string \<Rightarrow> string" where
  "trim s = rev (dropWhile is_ws (rev (dropWhile is_ws s)))"

definition lower_char :: "char \<Rightarrow> char" where
  "lower_char c =
     (let n = (of_char c :: nat)
      in if (65 \<le> n \<and> n \<le> 90) \<or> (192 \<le> n \<and> n \<le> 222 \<and> n \<noteq> 215)
         then char_of (n + 32) else c)"

definition toLowerCase :: "string \<Rightarrow> string" where
  "toLowerCase s = map lower_char s"

definition endsWith :: "string \<Rightarrow> string \<Rightarrow> bool" where
  "endsWith s t = (length t \<le> length s \<and> drop (length s - length t) s = t)"

text \<open>\<open>s.slice(start)\<close>: the start is truncated to an integer, counted from the end when
  negative, and clamped to the string.\<close>

definition trunc :: "rat \<Rightarrow> int" where
  "trunc x = (if 0 \<le> x then \<lfloor>x\<rfloor> else \<lceil>x\<rceil>)"

fun slice_from :: "string \<Rightarrow> number \<Rightarrow> string" where
  "slice_from s (Fin x) =
     (let len = int (length s); i = trunc x;
          from = (if i < 0 then max (len + i) 0 else min i len)
      in drop (nat from) s)"
| "slice_from s PosInf = []"
| "slice_from s NegInf = s"
| "slice_from s NaN = s"

fun findIndex :: "('a \<Rightarrow> bool) \<Rightarrow> 'a list \<Rightarrow> nat option" where
  "findIndex P [] = None"
| "findIndex P (x # xs) = (if P x then Some 0 else map_option Suc (findIndex P xs))"

section \<open>LibraryManager\<close>

record bookmark =
  bm_id :: string
  bm_position :: number
  bm_text :: string
  bm_createdAt :: string

record file_data =
  fd_id :: string
  fd_name :: string
  fd_size :: nat
  fd_type :: string
  fd_text :: string
  fd_addedAt :: string
  fd_lastPlayed :: "string option"
  fd_bookmarks :: "bookmark list"
  fd_progress :: number

text \<open>The \<open>File\<close> object handed to the application, and the bookmark a caller passes.\<close>

record file_info =
  fi_name :: string
  fi_size :: nat
  fi_type :: string


text \<open>
  The persisted library under \<open>STORAGE_KEY\<close>; \<open>writes\<close> counts the calls of \<open>saveLibrary\<close>.
  A missing key reads as the empty list. Writes to the store are taken to succeed.
\<close>

record lib_store =
  stored :: "file_data list"
  writes :: nat

definition MAX_FREE_ITEMS :: number where
  "MAX_FREE_ITEMS = Fin 5"

definition MAX_PREMIUM_ITEMS :: number where
  "MAX_PREMIUM_ITEMS = PosInf"

definition getLibrary :: "lib_store \<Rightarrow> file_data list" where
  "getLibrary st = stored st"

definition saveLibrary :: "file_data list \<Rightarrow> lib_store \<Rightarrow> lib_store" where
  "saveLibrary library st = st\<lparr>stored := library, writes := Suc (writes st)\<rparr>"

definition addFile :: "file_data \<Rightarrow> lib_store \<Rightarrow> bool \<times> lib_store" where
  "addFile fileData st =
     (let library = getLibrary st;
          library' = (case findIndex (\<lambda>item. fd_id item = fd_id fileData) library of
                        Some existingIndex \<Rightarrow> library[existingIndex := fileData]
                      | None \<Rightarrow> fileData # library)
      in (True, saveLibrary library' st))"

definition removeFile :: "string \<Rightarrow> lib_store \<Rightarrow> bool \<times> lib_store" where
  "removeFile i st =
     (let library = getLibrary st;
          filtered = filter (\<lambda>item. fd_id item \<noteq> i) library
      in if length filtered \<noteq> length library then (True, saveLibrary filtered st)
         else (False, st))"

record can_add =
  canAdd :: bool
  remaining :: number
  ca_isPremium :: bool
  maxItems :: number

text \<open>\<open>PremiumManager.isPremium()\<close> is the parameter \<open>isPremium\<close> here and below.\<close>

definition canAddFile :: "bool \<Rightarrow> lib_store \<Rightarrow> can_add" where
  "canAddFile isPremium st =
     (let library = getLibrary st;
          maxItems = (if isPremium then MAX_PREMIUM_ITEMS else MAX_FREE_ITEMS);
          remaining = js_sub maxItems (of_length (length library))
      in \<lparr>canAdd = js_greater remaining (Fin 0), remaining = remaining,
          ca_isPremium = isPremium, maxItems = maxItems\<rparr>)"

text \<open>\<open>generatedId\<close> is what \<open>Utils.generateId()\<close> returns, \<open>now\<close> the current time stamp.\<close>

definition createFileData :: "file_info \<Rightarrow> string \<Rightarrow> string \<Rightarrow> string \<Rightarrow> file_data" where
  "createFileData file text generatedId now =
     \<lparr>fd_id = generatedId, fd_name = fi_name file, fd_size = fi_size file,
      fd_type = fi_type file, fd_text = text, fd_addedAt = now, fd_lastPlayed = None,
      fd_bookmarks = [], fd_progress = Fin 0\<rparr>"



section \<open>TTSManager\<close>

datatype error = TypeError | PdfJsNotLoaded | NoPdfLoaded | InvalidPage | ParseFailed

text \<open>
  The speech-synthesis collaborator as far as the manager uses it: its \<open>paused\<close> flag and
  the texts of the utterances handed to \<open>synth.speak\<close>, oldest first.
\<close>

record synth_state =
  paused :: bool
  speak_calls :: "string list"

text \<open>
  \<open>tts_supported\<close> is \<open>'speechSynthesis' in window\<close>; \<open>synth\<close> is \<open>None\<close> while the field is
  \<open>null\<close>; \<open>reportedProgress\<close> is the last argument of \<open>updateProgress\<close>.
\<close>

record tts_manager =
  tts_supported :: bool
  synth :: "synth_state option"
  currentPosition :: number
  textLength :: nat
  isPlaying :: bool
  playbackRate :: number
  reportedProgress :: number

definition updateProgress :: "number \<Rightarrow> tts_manager \<Rightarrow> tts_manager" where
  "updateProgress progress t = t\<lparr>reportedProgress := progress\<rparr>"

definition loadText :: "string \<Rightarrow> tts_manager \<Rightarrow> tts_manager" where
  "loadText text t = t\<lparr>textLength := length text, currentPosition := Fin 0\<rparr>"

definition speak :: "string \<Rightarrow> tts_manager \<Rightarrow> error + tts_manager" where
  "speak text t =
     (if \<not> tts_supported t then Inr t
      else case synth t of
             None \<Rightarrow> Inl TypeError
           | Some sy \<Rightarrow> Inr (t\<lparr>synth := Some (sy\<lparr>speak_calls := speak_calls sy @ [text]\<rparr>)\<rparr>))"

text \<open>The handlers that \<open>speak\<close> installs on the utterance.\<close>

definition onstart :: "tts_manager \<Rightarrow> tts_manager" where
  "onstart t = t\<lparr>isPlaying := True\<rparr>"

definition onend :: "tts_manager \<Rightarrow> tts_manager" where
  "onend t = updateProgress (Fin 100) (t\<lparr>isPlaying := False\<rparr>)"

definition onerror :: "tts_manager \<Rightarrow> tts_manager" where
  "onerror t = t\<lparr>isPlaying := False\<rparr>"

definition onboundary :: "string \<Rightarrow> nat \<Rightarrow> tts_manager \<Rightarrow> tts_manager" where
  "onboundary event_name charIndex t =
     (if event_name = ''word'' \<or> event_name = ''sentence''
      then let t1 = t\<lparr>currentPosition := of_length charIndex\<rparr>;
               progress = js_mul (js_div (currentPosition t1) (of_length (textLength t1))) (Fin 100)
           in updateProgress progress t1
      else t)"

definition pause :: "tts_manager \<Rightarrow> tts_manager" where
  "pause t =
     (case synth t of
        Some sy \<Rightarrow> if tts_supported t
                   then t\<lparr>synth := Some (sy\<lparr>paused := True\<rparr>), isPlaying := False\<rparr> else t
      | None \<Rightarrow> t)"

definition resume :: "tts_manager \<Rightarrow> tts_manager" where
  "resume t =
     (case synth t of
        Some sy \<Rightarrow> if tts_supported t
                   then t\<lparr>synth := Some (sy\<lparr>paused := False\<rparr>), isPlaying := True\<rparr> else t
      | None \<Rightarrow> t)"

definition stop :: "tts_manager \<Rightarrow> tts_manager" where
  "stop t =
     (case synth t of
        Some sy \<Rightarrow> if tts_supported t
                   then updateProgress (Fin 0) (t\<lparr>isPlaying := False, currentPosition := Fin 0\<rparr>)
                   else t
      | None \<Rightarrow> t)"

text \<open>\<open>extractedText\<close> is \<open>PDFHandler.extractedText\<close>; a string is truthy when it is not empty.\<close>

definition togglePlayPause :: "string \<Rightarrow> tts_manager \<Rightarrow> error + tts_manager" where
  "togglePlayPause extractedText t =
     (if \<not> tts_supported t then Inr t
      else if isPlaying t then Inr (pause t)
      else case synth t of
             None \<Rightarrow> Inl TypeError
           | Some sy \<Rightarrow>
               if paused sy then Inr (resume t)
               else if extractedText \<noteq> [] then speak (slice_from extractedText (currentPosition t)) t
               else Inr t)"

definition setPosition :: "number \<Rightarrow> tts_manager \<Rightarrow> tts_manager" where
  "setPosition position t =
     (let t1 = t\<lparr>currentPosition :=
                  Math_max (Fin 0) (Math_min position (of_length (textLength t)))\<rparr>;
          progress = js_mul (js_div (currentPosition t1) (of_length (textLength t1))) (Fin 100)
      in updateProgress progress t1)"

definition seek :: "number \<Rightarrow> tts_manager \<Rightarrow> tts_manager" where
  "seek amount t =
     (let charCount = js_mul (of_length (textLength t)) (js_div amount (Fin 100))
      in setPosition (js_add (currentPosition t) charCount) t)"

text \<open>The texts handed to the collaborator so far, and a position that lies in the text.\<close>

definition handed :: "tts_manager \<Rightarrow> string list" where
  "handed t = (case synth t of None \<Rightarrow> [] | Some sy \<Rightarrow> speak_calls sy)"

fun in_text :: "number \<Rightarrow> nat \<Rightarrow> bool" where
  "in_text (Fin c) n = (0 \<le> c \<and> c \<le> of_nat n)"
| "in_text _ n = False"

section \<open>PDFHandler\<close>

text \<open>
  \<open>text.match(/[^.!?]+[.!?]+[\s]*/g)\<close>: the successive matches, each a longest run of
  non-terminators, the terminators after it and the white space after those.
\<close>

definition is_term :: "char \<Rightarrow> bool" where
  "is_term c = (c = CHR ''.'' \<or> c = CHR ''!'' \<or> c = CHR ''?'')"

function sentence_matches :: "string \<Rightarrow> string list" where
  "sentence_matches s =
     (let s1 = dropWhile is_term s;
          body = takeWhile (\<lambda>c. \<not> is_term c) s1;
          r1 = dropWhile (\<lambda>c. \<not> is_term c) s1
      in if r1 = [] then []
         else let terms = takeWhile is_term r1;
                  r2 = dropWhile is_term r1;
                  ws = takeWhile is_ws r2;
                  r3 = dropWhile is_ws r2
              in (body @ terms @ ws) # sentence_matches r3)"
  by pat_completeness auto
termination
proof (relation "measure length")
  show "wf (measure length)" by simp
next
  fix s s1 body r1 terms r2 ws r3 :: string
  assume a: "s1 = dropWhile is_term s" "r1 = dropWhile (\<lambda>c. \<not> is_term c) s1" "r1 \<noteq> []"
    "r2 = dropWhile is_term r1" "r3 = dropWhile is_ws r2"
  have "length r3 \<le> length r2" unfolding a by (rule length_dropWhile_le)
  moreover have "length r2 < length r1"
  proof (cases r1)
    case Nil
    then show ?thesis using a(3) by simp
  next
    case (Cons c cs)
    have "is_term (hd r1)" using hd_dropWhile [of "\<lambda>c. \<not> is_term c" s1] a(2,3) by simp
    then have "r2 = dropWhile is_term cs" using Cons a(4) by simp
    then show ?thesis using Cons length_dropWhile_le [of is_term cs] by simp
  qed
  moreover have "length r1 \<le> length s1" unfolding a(2) by (rule length_dropWhile_le)
  moreover have "length s1 \<le> length s" unfolding a(1) by (rule length_dropWhile_le)
  ultimately show "(r3, s) \<in> measure length" by simp
qed

declare sentence_matches.simps [simp del]

definition splitIntoSentences :: "string \<Rightarrow> string list" where
  "splitIntoSentences text =
     (let ms = sentence_matches text;
          sentences = (if ms = [] then [text] else ms)
      in filter (\<lambda>s. 0 < length s) (map trim sentences))"

record page =
  pg_page :: nat
  pg_text :: string
  pg_sentences :: "string list"

text \<open>
  \<open>pdfDoc\<close> holds the loaded document as the list of its page texts, the \<open>k\<close>-th being what
  \<open>extractPageText(k)\<close> resolves to; the parsing collaborator itself is not modelled.
\<close>

record pdf_handler =
  pdfDoc :: "string list option"
  currentFile :: "file_info option"
  extractedText :: string
  pages :: "page list"
  totalPages :: nat

record pdf_data =
  pd_name :: string
  pd_size :: nat
  pd_pages :: nat

text \<open>\<open>available\<close> is \<open>isAvailable()\<close>; \<open>parsed\<close> is the outcome of \<open>getDocument\<close> on the file.\<close>

definition loadPDF ::
  "bool \<Rightarrow> string list option \<Rightarrow> file_info \<Rightarrow> pdf_handler \<Rightarrow> (error + pdf_data) \<times> pdf_handler" where
  "loadPDF available parsed file h =
     (if \<not> available then (Inl PdfJsNotLoaded, h)
      else let h1 = h\<lparr>currentFile := Some file\<rparr>
           in case parsed of
                None \<Rightarrow> (Inl ParseFailed, h1)
              | Some doc \<Rightarrow>
                  (let h2 = h1\<lparr>pdfDoc := Some doc, totalPages := length doc\<rparr>
                   in (Inr \<lparr>pd_name = fi_name file, pd_size = fi_size file,
                            pd_pages = totalPages h2\<rparr>, h2)))"

definition extractPageText :: "string list \<Rightarrow> nat \<Rightarrow> string option" where
  "extractPageText doc pageNum =
     (if 1 \<le> pageNum \<and> pageNum \<le> length doc then Some (doc ! (pageNum - 1)) else None)"

record extract_options =
  startPage :: "nat option"
  endPage :: "nat option"

definition no_options :: extract_options where
  "no_options = \<lparr>startPage = None, endPage = None\<rparr>"

text \<open>The second loop of \<open>extractText\<close>, over \<open>pageTexts\<close> from index \<open>i\<close> on.\<close>

fun extract_loop :: "nat \<Rightarrow> nat \<Rightarrow> string list \<Rightarrow> pdf_handler \<Rightarrow> pdf_handler" where
  "extract_loop start i [] h = h"
| "extract_loop start i (text # rest) h =
     extract_loop start (Suc i) rest
       (h\<lparr>pages := pages h @
             [\<lparr>pg_page = start + i, pg_text = text, pg_sentences = splitIntoSentences text\<rparr>],
          extractedText := extractedText h @ text @ [nl, nl]\<rparr>)"

definition extractText :: "extract_options \<Rightarrow> pdf_handler \<Rightarrow> (error + string) \<times> pdf_handler" where
  "extractText options h =
     (case pdfDoc h of
        None \<Rightarrow> (Inl NoPdfLoaded, h)
      | Some doc \<Rightarrow>
          (let start = (case startPage options of None \<Rightarrow> 1 | Some n \<Rightarrow> n);
               end = (case endPage options of None \<Rightarrow> totalPages h | Some n \<Rightarrow> n);
               h1 = h\<lparr>extractedText := [], pages := []\<rparr>
           in case those (map (extractPageText doc) [start ..< Suc end]) of
                None \<Rightarrow> (Inl InvalidPage, h1)
              | Some pageTexts \<Rightarrow>
                  (let h2 = extract_loop start 0 pageTexts h1
                   in (Inr (extractedText h2), h2))))"

definition getProgressAtPosition :: "number \<Rightarrow> pdf_handler \<Rightarrow> number" where
  "getProgressAtPosition position h =
     (if length (extractedText h) = 0 then Fin 0
      else js_mul (js_div position (of_length (length (extractedText h)))) (Fin 100))"

definition getPositionAtProgress :: "number \<Rightarrow> pdf_handler \<Rightarrow> number" where
  "getPositionAtProgress progress h =
     Math_floor (js_mul (js_div progress (Fin 100)) (of_length (length (extractedText h))))"


text \<open>
  \<open>cleanText\<close>, one function for each \<open>replace\<close>:
  \<open>/\s+/g\<close> by a space; \<open>/\n\s*\n/g\<close> by two newlines (a match runs from a newline to the
  last newline of the white space after it); \<open>/\[.*?\]/g\<close> and \<open>/\(.*?\)/g\<close> by nothing (a
  match runs from the opening character to the first closing one, with no line terminator
  between them).
\<close>

function collapse_ws :: "string \<Rightarrow> string" where
  "collapse_ws [] = []"
| "collapse_ws (c # cs) =
     (if is_ws c then CHR 0x20 # collapse_ws (dropWhile is_ws cs) else c # collapse_ws cs)"
  by pat_completeness auto
termination
  by (relation "measure length") (auto simp: le_imp_less_Suc length_dropWhile_le)

function norm_blank :: "string \<Rightarrow> string" where
  "norm_blank [] = []"
| "norm_blank (c # cs) =
     (let run = takeWhile is_ws cs
      in if c = nl \<and> nl \<in> set run
         then [nl, nl] @
              norm_blank (drop (length run - length (takeWhile (\<lambda>d. d \<noteq> nl) (rev run))) cs)
         else c # norm_blank cs)"
  by pat_completeness auto
termination
  by (relation "measure length") auto

function remove_delim :: "char \<Rightarrow> char \<Rightarrow> string \<Rightarrow> string" where
  "remove_delim l r [] = []"
| "remove_delim l r (c # cs) =
     (let rest = dropWhile (\<lambda>d. d \<noteq> r \<and> \<not> is_line_term d) cs
      in if c = l \<and> rest \<noteq> [] \<and> hd rest = r then remove_delim l r (tl rest)
         else c # remove_delim l r cs)"
  by pat_completeness auto
termination
proof (relation "measure (\<lambda>(l, r, s). length s)")
  show "wf (measure (\<lambda>(l, r, s). length s))" by simp
next
  fix l r c :: char and cs rest :: string
  assume "rest = dropWhile (\<lambda>d. d \<noteq> r \<and> \<not> is_line_term d) cs"
  then have "length (tl rest) \<le> length cs"
    using length_dropWhile_le [of "\<lambda>d. d \<noteq> r \<and> \<not> is_line_term d" cs] by simp
  then show "((l, r, tl rest), l, r, c # cs) \<in> measure (\<lambda>(l, r, s). length s)" by simp
next
  fix l r c :: char and cs :: string
  show "((l, r, cs), l, r, c # cs) \<in> measure (\<lambda>(l, r, s). length s)" by simp
qed

definition cleanText :: "string \<Rightarrow> string" where
  "cleanText text =
     trim (remove_delim (CHR ''('') (CHR '')'')
            (remove_delim (CHR ''['') (CHR '']'') (norm_blank (collapse_ws text))))"

text \<open>\<open>text.split(/\n\n+/)\<close>: the pieces between the runs of two or more newlines.\<close>

function split_blank :: "string \<Rightarrow> string list" where
  "split_blank [] = [[]]"
| "split_blank (c # cs) =
     (if c = nl \<and> take 1 cs = [nl] then [] # split_blank (dropWhile (\<lambda>d. d = nl) cs)
      else case split_blank cs of
             piece # pieces \<Rightarrow> (c # piece) # pieces
           | [] \<Rightarrow> [[c]])"
  by pat_completeness auto
termination
  by (relation "measure length") (auto simp: le_imp_less_Suc length_dropWhile_le)

definition loadFromLibrary ::
  "file_data \<Rightarrow> pdf_handler \<Rightarrow> tts_manager \<Rightarrow> pdf_handler \<times> tts_manager" where
  "loadFromLibrary fileData h t =
     (let h1 = h\<lparr>currentFile := Some \<lparr>fi_name = fd_name fileData, fi_size = fd_size fileData,
                                      fi_type = ''application/pdf''\<rparr>,
                 extractedText := fd_text fileData, pages := []\<rparr>;
          pageTexts = split_blank (fd_text fileData);
          h2 = h1\<lparr>pages := pages h1 @
                  map (\<lambda>(i, text). \<lparr>pg_page = i + 1, pg_text = trim text,
                                    pg_sentences = splitIntoSentences (trim text)\<rparr>)
                      (enumerate 0 pageTexts)\<rparr>;
          h3 = h2\<lparr>totalPages := length (pages h2)\<rparr>;
          t1 = loadText (extractedText h3) t;
          t2 = (if js_greater (fd_progress fileData) (Fin 0)
                then setPosition (getPositionAtProgress (fd_progress fileData) h3) t1
                else t1)
      in (h3, t2))"

section \<open>AuthManager\<close>

record user =
  u_id :: string
  u_name :: string
  u_email :: string
  u_password :: string
  u_createdAt :: string
  u_isPremium :: bool
  u_premiumExpiresAt :: "string option"

text \<open>The current user is stored without the password.\<close>

record safe_user =
  su_id :: string
  su_name :: string
  su_email :: string
  su_createdAt :: string
  su_isPremium :: bool
  su_premiumExpiresAt :: "string option"

record auth_store =
  users :: "user list"
  currentUser :: "safe_user option"

definition findUserByEmail :: "string \<Rightarrow> auth_store \<Rightarrow> user option" where
  "findUserByEmail email st =
     find (\<lambda>u. toLowerCase (u_email u) = toLowerCase email) (users st)"

definition setCurrentUser :: "user \<Rightarrow> auth_store \<Rightarrow> auth_store" where
  "setCurrentUser u st =
     st\<lparr>currentUser := Some \<lparr>su_id = u_id u, su_name = u_name u, su_email = u_email u,
                              su_createdAt = u_createdAt u, su_isPremium = u_isPremium u,
                              su_premiumExpiresAt = u_premiumExpiresAt u\<rparr>\<rparr>"

definition isLoggedIn :: "auth_store \<Rightarrow> bool" where
  "isLoggedIn st = (currentUser st \<noteq> None)"

text \<open>
  \<open>hashPassword\<close>: the loop keeps \<open>hash\<close> a 32-bit integer (\<open>hash & hash\<close>), and every
  intermediate value is an integer below \<open>2^53\<close>, so the arithmetic is that of 32-bit words.
  \<open>toString(16)\<close> writes the signed value.
\<close>

definition hex_digit :: "nat \<Rightarrow> char" where
  "hex_digit d = ''0123456789abcdef'' ! d"

fun hex_nat :: "nat \<Rightarrow> string" where
  "hex_nat n = (if n < 16 then [hex_digit n] else hex_nat (n div 16) @ [hex_digit (n mod 16)])"

declare hex_nat.simps [simp del]

definition toString16 :: "int \<Rightarrow> string" where
  "toString16 k = (if k < 0 then CHR ''-'' # hex_nat (nat (- k)) else hex_nat (nat k))"

definition hash_step :: "32 word \<Rightarrow> char \<Rightarrow> 32 word" where
  "hash_step hash c = (push_bit 5 hash - hash) + of_nat (of_char c)"

definition hashPassword :: "string \<Rightarrow> string" where
  "hashPassword password = toString16 (sint (foldl hash_step 0 password))"

definition verifyPassword :: "string \<Rightarrow> string \<Rightarrow> bool" where
  "verifyPassword password hashedPassword = (hashPassword password = hashedPassword)"

definition register ::
  "string \<Rightarrow> string \<Rightarrow> string \<Rightarrow> string \<Rightarrow> string \<Rightarrow> auth_store \<Rightarrow> (string + user) \<times> auth_store" where
  "register name email password generatedId now st =
     (if findUserByEmail email st \<noteq> None then (Inl ''Email already registered'', st)
      else let newUser = \<lparr>u_id = generatedId, u_name = trim name,
                          u_email = toLowerCase (trim email),
                          u_password = hashPassword password, u_createdAt = now,
                          u_isPremium = False, u_premiumExpiresAt = None\<rparr>;
               st1 = st\<lparr>users := users st @ [newUser]\<rparr>
           in (Inr newUser, setCurrentUser newUser st1))"

definition login :: "string \<Rightarrow> string \<Rightarrow> auth_store \<Rightarrow> (string + user) \<times> auth_store" where
  "login email password st =
     (case findUserByEmail email st of
        None \<Rightarrow> (Inl ''Account not found. Please sign up first.'', st)
      | Some u \<Rightarrow>
          if \<not> verifyPassword password (u_password u) then (Inl ''Incorrect password'', st)
          else (Inr u, setCurrentUser u st))"

section \<open>App\<close>

record app =
  lib :: lib_store
  pdf :: pdf_handler
  tts :: tts_manager
  auth :: auth_store

definition isPDFFile :: "file_info \<Rightarrow> bool" where
  "isPDFFile file =
     (fi_type file = ''application/pdf'' \<or> endsWith (toLowerCase (fi_name file)) ''.pdf'')"

text \<open>
  \<open>processFile\<close>, run to completion. \<open>isPremium\<close> is \<open>PremiumManager.isPremium()\<close>,
  \<open>available\<close> and \<open>parsed\<close> are as in \<open>loadPDF\<close>; an exception ends in the \<open>catch\<close> block,
  which changes no state.
\<close>

definition processFile ::
  "bool \<Rightarrow> bool \<Rightarrow> string list option \<Rightarrow> string \<Rightarrow> string \<Rightarrow> file_info \<Rightarrow> app \<Rightarrow> app" where
  "processFile isPremium available parsed generatedId now file a =
     (if \<not> isPDFFile file then a
      else let ca = canAddFile isPremium (lib a)
           in if \<not> canAdd ca \<and> \<not> isLoggedIn (auth a) then a
              else if \<not> canAdd ca \<and> \<not> isPremium then a
              else case loadPDF available parsed file (pdf a) of
                     (Inl e, h1) \<Rightarrow> a\<lparr>pdf := h1\<rparr>
                   | (Inr pdfData, h1) \<Rightarrow>
                       (case extractText no_options h1 of
                          (Inl e, h2) \<Rightarrow> a\<lparr>pdf := h2\<rparr>
                        | (Inr text, h2) \<Rightarrow>
                            (let cleanedText = cleanText text;
                                 lib1 = (if canAdd ca \<or> isPremium
                                         then snd (addFile (createFileData file cleanedText
                                                              generatedId now) (lib a))
                                         else lib a)
                             in a\<lparr>pdf := h2, lib := lib1,
                                  tts := loadText cleanedText (tts a)\<rparr>)))"





section \<open>Example inputs\<close>

definition mk_file :: "string \<Rightarrow> file_data" where
  "mk_file i =
     \<lparr>fd_id = i, fd_name = i @ ''.pdf'', fd_size = 1, fd_type = ''application/pdf'',
      fd_text = ''Hello.'', fd_addedAt = ''t0'', fd_lastPlayed = None, fd_bookmarks = [],
      fd_progress = Fin 0\<rparr>"

definition empty_store :: lib_store where
  "empty_store = \<lparr>stored = [], writes = 0\<rparr>"

definition store_ab :: lib_store where
  "store_ab = \<lparr>stored = [mk_file ''a'', mk_file ''b''], writes = 0\<rparr>"





definition synth_idle :: synth_state where
  "synth_idle = \<lparr>paused = False, speak_calls = []\<rparr>"

definition tts_hello :: tts_manager where
  "tts_hello = \<lparr>tts_supported = True, synth = Some synth_idle, currentPosition = Fin 2,
                 textLength = 5, isPlaying = False, playbackRate = Fin 1,
                 reportedProgress = Fin 0\<rparr>"

definition pdf_empty :: pdf_handler where
  "pdf_empty = \<lparr>pdfDoc = None, currentFile = None, extractedText = [], pages = [],
                 totalPages = 0\<rparr>"

definition pdf_abc :: pdf_handler where
  "pdf_abc = pdf_empty\<lparr>extractedText := ''abc''\<rparr>"

definition pdf_one_page :: pdf_handler where
  "pdf_one_page = pdf_empty\<lparr>pdfDoc := Some [''a''], totalPages := 1\<rparr>"

definition auth_empty :: auth_store where
  "auth_empty = \<lparr>users = [], currentUser = None\<rparr>"

definition pdf_file :: file_info where
  "pdf_file = \<lparr>fi_name = ''doc.pdf'', fi_size = 10, fi_type = ''application/pdf''\<rparr>"



definition app_empty :: app where
  "app_empty = \<lparr>lib = empty_store, pdf = pdf_empty, tts = tts_hello, auth = auth_empty\<rparr>"

text \<open>The page texts joined with blank-line separators, one between consecutive pages and none
  trailing, as the specification words it.\<close>

fun join_blank_lines :: "string list \<Rightarrow> string" where
  "join_blank_lines [] = []"
| "join_blank_lines [t] = t"
| "join_blank_lines (t # ts) = t @ [nl, nl] @ join_blank_lines ts"

section \<open>Rounding to binary64\<close>

lemma pow2_powi: "pow2 e = 2 powi e"
  by (simp add: pow2_def power_int_def inverse_eq_divide power_one_over)

lemma pow2_pos: "0 < pow2 e"
  by (simp add: pow2_powi)

lemma pow2_add: "pow2 (a + b) = pow2 a * pow2 b"
  by (simp add: pow2_powi power_int_add)

lemma pow2_mono: "a \<le> b \<Longrightarrow> pow2 a \<le> pow2 b"
  by (simp add: pow2_powi power_int_increasing)

lemma pow2_strict_mono: "a < b \<Longrightarrow> pow2 a < pow2 b"
  by (simp add: pow2_powi power_int_strict_increasing)

lemma pow2_less_iff: "pow2 a < pow2 b \<longleftrightarrow> a < b"
  using pow2_strict_mono [of a b] pow2_mono [of b a] by (auto simp: not_less [symmetric])

lemma floor_log2_bounds:
  assumes "0 < x"
  shows "pow2 (floor_log2 x) \<le> x \<and> x < pow2 (floor_log2 x + 1)"
proof (cases "1 \<le> x")
  case True
  define n where "n = \<lfloor>x\<rfloor>"
  have n: "0 < n" using True by (simp add: n_def)
  have b: "2 ^ nat (bitlen n - 1) \<le> n" "n < 2 ^ nat (bitlen n)"
    using bitlen_bounds [OF n] by auto
  have ge1: "1 \<le> bitlen n" using n bitlen_eq_zero_iff [of n] bitlen_nonneg [of n] by linarith
  have "rat_of_int (2 ^ nat (bitlen n - 1)) \<le> of_int n" using b(1) by (simp only: of_int_le_iff)
  also have "\<dots> \<le> x" by (simp add: n_def)
  finally have lo: "pow2 (bitlen n - 1) \<le> x" using ge1 by (simp add: pow2_def)
  have "x < of_int (n + 1)" unfolding n_def using floor_correct [of x] by simp
  also have "\<dots> \<le> rat_of_int (2 ^ nat (bitlen n))" using b(2) by (simp only: of_int_le_iff)
  finally have hi: "x < pow2 (bitlen n)" using ge1 by (simp add: pow2_def)
  show ?thesis using lo hi True by (simp add: floor_log2_def n_def)
next
  case False
  define y where "y = 1 / x"
  have y1: "1 < y" using False assms by (simp add: y_def)
  define n where "n = \<lceil>y\<rceil> - 1"
  have n: "0 < n" using y1 by (simp add: n_def)
  have b: "2 ^ nat (bitlen n - 1) \<le> n" "n < 2 ^ nat (bitlen n)"
    using bitlen_bounds [OF n] by auto
  have ge1: "1 \<le> bitlen n" using n bitlen_eq_zero_iff [of n] bitlen_nonneg [of n] by linarith
  have ny: "of_int n < y" "y \<le> of_int n + 1" unfolding n_def using ceiling_correct [of y] by simp_all
  have "y \<le> of_int (n + 1)" using ny by simp
  also have "\<dots> \<le> rat_of_int (2 ^ nat (bitlen n))" using b(2) by (simp only: of_int_le_iff)
  finally have "y \<le> 2 ^ nat (bitlen n)" by simp
  then have lo: "pow2 (- bitlen n) \<le> x" using ge1 assms 
    by (simp add: pow2_def y_def field_simps)
  have "rat_of_int (2 ^ nat (bitlen n - 1)) \<le> of_int n" using b(1) by (simp only: of_int_le_iff)
  also have "\<dots> < y" using ny by simp
  finally have yl: "2 ^ nat (bitlen n - 1) < y" by simp
  have hi: "x < pow2 (- bitlen n + 1)"
  proof (cases "bitlen n = 1")
    case True then show ?thesis using False by (simp add: pow2_def)
  next
    case F: False
    then have "1 < bitlen n" using ge1 by simp
    then have p: "pow2 (- bitlen n + 1) = 1 / 2 ^ nat (bitlen n - 1)" by (simp add: pow2_def)
    have "x * 2 ^ nat (bitlen n - 1) < 1" using yl assms by (simp add: y_def field_simps)
    then have "x < 1 / 2 ^ nat (bitlen n - 1)" by (simp add: field_simps)
    then show ?thesis by (simp only: p)
  qed
  show ?thesis using lo hi False by (simp add: floor_log2_def n_def y_def)
qed

lemma floor_log2_unique:
  assumes "0 < x" "pow2 e \<le> x" "x < pow2 (e + 1)"
  shows "floor_log2 x = e"
proof -
  from floor_log2_bounds [OF assms(1)]
  have a: "pow2 (floor_log2 x) \<le> x" and b: "x < pow2 (floor_log2 x + 1)" by auto
  have "pow2 e < pow2 (floor_log2 x + 1)" using assms(2) b by simp
  then have 1: "e < floor_log2 x + 1" by (simp add: pow2_less_iff)
  have "pow2 (floor_log2 x) < pow2 (e + 1)" using assms(3) a by simp
  then have 2: "floor_log2 x < e + 1" by (simp add: pow2_less_iff)
  show ?thesis using 1 2 by simp
qed

lemma round_half_even_err: "\<bar>of_int (round_half_even x) - x\<bar> \<le> 1 / 2"
proof -
  have f: "of_int \<lfloor>x\<rfloor> \<le> x" "x < of_int \<lfloor>x\<rfloor> + 1"
    using floor_correct [of x] by simp_all
  show ?thesis
    unfolding round_half_even_def Let_def using f by (simp add: abs_le_iff)
qed

lemma round_half_even_unique:
  assumes "\<bar>of_int m - x\<bar> < 1 / 2"
  shows "round_half_even x = m"
proof -
  have "\<bar>rat_of_int (round_half_even x) - of_int m\<bar> < 1" 
    using round_half_even_err [of x] assms by linarith
  then have "\<bar>rat_of_int (round_half_even x - m)\<bar> < 1" by simp
  then have "\<bar>round_half_even x - m\<bar> < 1" by (simp only: of_int_abs [symmetric] of_int_less_1_iff) 
  then show ?thesis by simp
qed

lemma fl64_cert:
  assumes "pow2 (e + 52) \<le> \<bar>x\<bar>" "\<bar>x\<bar> < pow2 (e + 53)" "- 1074 \<le> e"
    and "\<bar>of_int m - x / pow2 e\<bar> < 1 / 2" "\<bar>of_int m * pow2 e\<bar> < pow2 1024"
  shows "fl64 x = Fin (of_int m * pow2 e)"
proof -
  have x0: "x \<noteq> 0" using assms(1) pow2_pos [of "e + 52"] by auto
  then have "0 < \<bar>x\<bar>" by simp
  then have "floor_log2 \<bar>x\<bar> = e + 52" using assms(1,2) by (intro floor_log2_unique) (simp_all add: add.commute add.left_commute)
  then have e: "max (floor_log2 \<bar>x\<bar> - 52) (- 1074) = e" using assms(3) by simp
  have m: "round_half_even (x / pow2 e) = m" using assms(4) by (rule round_half_even_unique)
  show ?thesis using x0 assms(5) unfolding fl64_def Let_def e m by (simp add: not_le)
qed

lemma round_half_even_nonneg: "0 \<le> x \<Longrightarrow> 0 \<le> round_half_even x"
  unfolding round_half_even_def Let_def by (auto simp: zero_le_floor intro: add_nonneg_nonneg)

lemma round_half_even_nonpos: "x \<le> 0 \<Longrightarrow> round_half_even x \<le> 0"
proof -
  assume x: "x \<le> 0"
  have f: "of_int \<lfloor>x\<rfloor> \<le> x" "x < of_int \<lfloor>x\<rfloor> + 1" "\<lfloor>x\<rfloor> \<le> 0"
    using floor_correct [of x] x by (simp_all add: floor_le_zero)
  show ?thesis
  proof (cases "\<lfloor>x\<rfloor> = 0")
    case True
    then have "x = 0" using f x by simp
    then show ?thesis by (simp add: round_half_even_def)
  next
    case False
    then have "\<lfloor>x\<rfloor> + 1 \<le> 0" using f(3) by linarith
    then show ?thesis using f(3) unfolding round_half_even_def Let_def by auto
  qed
qed

lemma fl64_cases:
  assumes "x \<noteq> 0"
  shows "\<exists>y. \<bar>y - x\<bar> \<le> pow2 (max (floor_log2 \<bar>x\<bar> - 52) (- 1074)) / 2 \<and>
             (0 < x \<longrightarrow> 0 \<le> y) \<and> (x < 0 \<longrightarrow> y \<le> 0) \<and>
             fl64 x = (if pow2 1024 \<le> \<bar>y\<bar> then (if 0 < x then PosInf else NegInf) else Fin y)"
proof -
  define e where "e = max (floor_log2 \<bar>x\<bar> - 52) (- 1074)"
  define m where "m = round_half_even (x / pow2 e)"
  define y where "y = of_int m * pow2 e"
  have pe: "0 < pow2 e" by (rule pow2_pos)
  have "\<bar>of_int m - x / pow2 e\<bar> \<le> 1 / 2" unfolding m_def by (rule round_half_even_err)
  then have "\<bar>of_int m - x / pow2 e\<bar> * pow2 e \<le> 1 / 2 * pow2 e"
    using pe by (intro mult_right_mono) simp_all
  moreover have "\<bar>of_int m - x / pow2 e\<bar> * pow2 e = \<bar>y - x\<bar>"
  proof -
    have "\<bar>of_int m - x / pow2 e\<bar> * pow2 e = \<bar>(of_int m - x / pow2 e) * pow2 e\<bar>"
      using pe by (simp add: abs_mult)
    also have "(of_int m - x / pow2 e) * pow2 e = y - x"
      using pe by (simp add: y_def field_simps)
    finally show ?thesis .
  qed
  ultimately have err: "\<bar>y - x\<bar> \<le> pow2 e / 2" by simp
  have pos: "0 < x \<longrightarrow> 0 \<le> y"
  proof
    assume "0 < x"
    then have "0 \<le> x / pow2 e" using pe by simp
    then have "0 \<le> m" unfolding m_def by (rule round_half_even_nonneg)
    then show "0 \<le> y" using pe by (simp add: y_def)
  qed
  have neg: "x < 0 \<longrightarrow> y \<le> 0"
  proof
    assume "x < 0"
    then have "x / pow2 e \<le> 0" using pe by (simp add: divide_le_0_iff)
    then have "m \<le> 0" unfolding m_def by (rule round_half_even_nonpos)
    then show "y \<le> 0" using pe by (simp add: y_def mult_le_0_iff)
  qed
  have "fl64 x = (if pow2 1024 \<le> \<bar>y\<bar> then (if 0 < x then PosInf else NegInf) else Fin y)"
    using assms by (simp add: fl64_def Let_def e_def [symmetric] m_def [symmetric] y_def [symmetric])
  then show ?thesis using err pos neg unfolding e_def by blast
qed

lemma fl64_not_NaN: "fl64 x \<noteq> NaN"
  by (simp add: fl64_def Let_def)

lemma fl64_finite_err:
  assumes "x \<noteq> 0" and "\<bar>x\<bar> < pow2 1023"
  shows "\<exists>y. fl64 x = Fin y \<and> \<bar>y - x\<bar> \<le> pow2 (max (floor_log2 \<bar>x\<bar> - 52) (- 1074)) / 2"
proof -
  have x: "0 < \<bar>x\<bar>" using assms(1) by simp
  from floor_log2_bounds [OF x] have "pow2 (floor_log2 \<bar>x\<bar>) < pow2 1023"
    using assms(2) by simp
  then have "floor_log2 \<bar>x\<bar> < 1023" by (simp add: pow2_less_iff)
  then have "max (floor_log2 \<bar>x\<bar> - 52) (- 1074) \<le> 970" by simp
  then have pe: "pow2 (max (floor_log2 \<bar>x\<bar> - 52) (- 1074)) \<le> pow2 970" by (rule pow2_mono)
  from fl64_cases [OF assms(1)] obtain y where
    y: "\<bar>y - x\<bar> \<le> pow2 (max (floor_log2 \<bar>x\<bar> - 52) (- 1074)) / 2"
      "fl64 x = (if pow2 1024 \<le> \<bar>y\<bar> then (if 0 < x then PosInf else NegInf) else Fin y)"
    by blast
  have "\<bar>y\<bar> \<le> \<bar>x\<bar> + \<bar>y - x\<bar>" by simp
  also have "\<dots> < pow2 1023 + pow2 970" using y(1) pe assms(2) pow2_pos [of 970] by linarith
  also have "\<dots> \<le> pow2 1024" by (simp add: pow2_def)
  finally have "\<not> pow2 1024 \<le> \<bar>y\<bar>" by simp
  then show ?thesis using y by auto
qed

lemma fl64_finite:
  assumes "\<bar>x\<bar> < pow2 1023"
  shows "\<exists>y. fl64 x = Fin y"
proof (cases "x = 0")
  case True
  then show ?thesis by (simp add: fl64_def)
next
  case False
  then show ?thesis using fl64_finite_err [OF False assms] by blast
qed

lemma fl64_nonpos: "x \<le> 0 \<Longrightarrow> \<not> js_less (Fin 0) (fl64 x)"
proof (cases "x = 0")
  case True
  then show ?thesis by (simp add: fl64_def)
next
  case False
  assume "x \<le> 0"
  then have x: "x < 0" using False by simp
  from fl64_cases [OF False] obtain y where
    y: "x < 0 \<longrightarrow> y \<le> 0"
      "fl64 x = (if pow2 1024 \<le> \<bar>y\<bar> then (if 0 < x then PosInf else NegInf) else Fin y)"
    by blast
  show ?thesis using y x by (simp add: not_less)
qed

lemma fl64_zero [simp]: "fl64 0 = Fin 0"
  by (simp add: fl64_def)

lemma fl64_rel:
  assumes "pow2 (- 1022) \<le> x" and "x < pow2 1023"
  shows "\<exists>y. fl64 x = Fin y \<and> x * (1 - unit_roundoff) \<le> y \<and> y \<le> x * (1 + unit_roundoff)"
proof -
  have x: "0 < x" using assms(1) pow2_pos [of "- 1022"] by linarith
  then have ax: "\<bar>x\<bar> = x" by simp
  from floor_log2_bounds [OF x]
  have b: "pow2 (floor_log2 x) \<le> x" "x < pow2 (floor_log2 x + 1)" by auto
  have "pow2 (- 1022) < pow2 (floor_log2 x + 1)" using assms(1) b(2) by simp
  then have "- 1022 < floor_log2 x + 1" by (simp add: pow2_less_iff)
  then have m: "max (floor_log2 x - 52) (- 1074) = floor_log2 x + (- 52)" by simp
  from fl64_finite_err [of x] x assms(2) obtain y where
    y: "fl64 x = Fin y" "\<bar>y - x\<bar> \<le> pow2 (floor_log2 x + (- 52)) / 2"
    unfolding ax m by auto
  have "pow2 (floor_log2 x + (- 52)) / 2 = pow2 (floor_log2 x) * unit_roundoff"
    unfolding pow2_add by (simp add: pow2_def unit_roundoff_def)
  also have "\<dots> \<le> x * unit_roundoff"
    using b(1) by (intro mult_right_mono) (simp_all add: unit_roundoff_def)
  finally have "\<bar>y - x\<bar> \<le> x * unit_roundoff" using y(2) by simp
  then have "x * (1 - unit_roundoff) \<le> y \<and> y \<le> x * (1 + unit_roundoff)"
    by (simp add: algebra_simps abs_le_iff)
  then show ?thesis using y(1) by blast
qed

lemma fl64_step:
  assumes a: "1 / 2 ^ 50 \<le> a" "a \<le> 2 ^ 57" and lo: "1 / 2 \<le> lo" and hi: "hi \<le> 2"
    and x: "a * lo \<le> x" "x \<le> a * hi"
  shows "\<exists>y. fl64 x = Fin y \<and> a * (lo * (1 - unit_roundoff)) \<le> y \<and>
             y \<le> a * (hi * (1 + unit_roundoff))"
proof -
  have a0: "0 < a" using a(1) by (rule less_le_trans [rotated]) simp
  have "1 / 2 ^ 50 * (1 / 2) \<le> a * lo" using a(1) lo by (intro mult_mono) simp_all
  then have lo1: "pow2 (- 1022) \<le> x" using x(1) by (simp add: pow2_def)
  have "a * hi \<le> a * 2" using hi a0 by (intro mult_left_mono) simp_all
  also have "\<dots> \<le> 2 ^ 57 * 2" using a(2) by simp
  finally have hi1: "x < pow2 1023" using x(2) by (simp add: pow2_def)
  from fl64_rel [OF lo1 hi1] obtain y where
    y: "fl64 x = Fin y" "x * (1 - unit_roundoff) \<le> y" "y \<le> x * (1 + unit_roundoff)"
    by blast
  have "a * lo * (1 - unit_roundoff) \<le> x * (1 - unit_roundoff)"
    using x(1) by (intro mult_right_mono) (simp_all add: unit_roundoff_def)
  moreover have "x * (1 + unit_roundoff) \<le> a * hi * (1 + unit_roundoff)"
    using x(2) by (intro mult_right_mono) (simp_all add: unit_roundoff_def)
  ultimately have "a * (lo * (1 - unit_roundoff)) \<le> y \<and> y \<le> a * (hi * (1 + unit_roundoff))"
    using y(2,3) by (simp add: mult.assoc)
  then show ?thesis using y(1) by blast
qed

lemma roundtrip_bounds:
  fixes q l :: rat
  assumes q: "1 \<le> q" "q \<le> l" and l: "l < 2 ^ 50"
  shows "\<exists>y1 y2 y3 y4. fl64 (q / l) = Fin y1 \<and> fl64 (y1 * 100) = Fin y2 \<and>
           fl64 (y2 / 100) = Fin y3 \<and> fl64 (y3 * l) = Fin y4 \<and> q - 1 \<le> y4 \<and> y4 < q + 1"
proof -
  define u where "u = unit_roundoff"
  have l0: "0 < l" using q by simp
  define a where "a = q / l"
  have a_lo: "1 / 2 ^ 50 \<le> a"
  proof -
    have "1 / 2 ^ 50 \<le> 1 / l" using l l0 by (simp add: field_simps)
    also have "\<dots> \<le> q / l" using q(1) l0 by (simp add: divide_right_mono)
    finally show ?thesis by (simp add: a_def)
  qed
  have a_hi: "a \<le> 1" using q(2) l0 by (simp add: a_def)
  have al: "a * l = q" using l0 by (simp add: a_def)
  from fl64_step [of a 1 1 a] a_lo a_hi obtain y1 where
    y1: "fl64 a = Fin y1" "a * (1 * (1 - u)) \<le> y1" "y1 \<le> a * (1 * (1 + u))"
    unfolding u_def by auto
  have "a * 100 * (1 * (1 - u)) \<le> y1 * 100" "y1 * 100 \<le> a * 100 * (1 * (1 + u))"
    using y1(2,3) by simp_all
  from fl64_step [OF _ _ _ _ this] a_lo a_hi obtain y2 where
    y2: "fl64 (y1 * 100) = Fin y2" "a * 100 * (1 * (1 - u) * (1 - u)) \<le> y2"
      "y2 \<le> a * 100 * (1 * (1 + u) * (1 + u))"
    unfolding u_def by (auto simp: unit_roundoff_def)
  have "a * (1 * (1 - u) * (1 - u)) \<le> y2 / 100" "y2 / 100 \<le> a * (1 * (1 + u) * (1 + u))"
    using y2(2,3) by simp_all
  from fl64_step [OF _ _ _ _ this] a_lo a_hi obtain y3 where
    y3: "fl64 (y2 / 100) = Fin y3" "a * (1 * (1 - u) * (1 - u) * (1 - u)) \<le> y3"
      "y3 \<le> a * (1 * (1 + u) * (1 + u) * (1 + u))"
    unfolding u_def by (auto simp: unit_roundoff_def)
  have "a * (1 * (1 - u) * (1 - u) * (1 - u)) * l \<le> y3 * l"
    "y3 * l \<le> a * (1 * (1 + u) * (1 + u) * (1 + u)) * l"
    using y3(2,3) l0 by (simp_all only: mult_le_cancel_right_pos)
  then have "q * (1 * (1 - u) * (1 - u) * (1 - u)) \<le> y3 * l"
    "y3 * l \<le> q * (1 * (1 + u) * (1 + u) * (1 + u))"
    unfolding al [symmetric] by (simp_all add: mult.assoc mult.left_commute mult.commute)
  from fl64_step [OF _ _ _ _ this] q l obtain y4 where
    y4: "fl64 (y3 * l) = Fin y4" "q * (1 * (1 - u) * (1 - u) * (1 - u) * (1 - u)) \<le> y4"
      "y4 \<le> q * (1 * (1 + u) * (1 + u) * (1 + u) * (1 + u))"
    unfolding u_def by (auto simp: unit_roundoff_def)
  have c1: "1 - 1 / 2 ^ 51 \<le> 1 * (1 - u) * (1 - u) * (1 - u) * (1 - u)"
    by (simp add: u_def unit_roundoff_def)
  have c2: "1 * (1 + u) * (1 + u) * (1 + u) * (1 + u) \<le> 1 + 1 / 2 ^ 50"
    by (simp add: u_def unit_roundoff_def)
  have q0: "0 \<le> q" using q(1) by simp
  have "q * (1 - 1 / 2 ^ 51) \<le> q * (1 * (1 - u) * (1 - u) * (1 - u) * (1 - u))"
    using c1 q0 by (rule mult_left_mono)
  also have "\<dots> \<le> y4" by (rule y4(2))
  finally have d1: "q * (1 - 1 / 2 ^ 51) \<le> y4" .
  have "q * (1 - 1 / 2 ^ 51) = q - q / 2 ^ 51" by (simp add: algebra_simps)
  moreover have "q / 2 ^ 51 < 1" using q l by simp
  ultimately have r1: "q - 1 \<le> y4" using d1 by linarith
  have "y4 \<le> q * (1 * (1 + u) * (1 + u) * (1 + u) * (1 + u))" by (rule y4(3))
  also have "\<dots> \<le> q * (1 + 1 / 2 ^ 50)" using c2 q0 by (rule mult_left_mono)
  finally have d2: "y4 \<le> q * (1 + 1 / 2 ^ 50)" .
  have "q * (1 + 1 / 2 ^ 50) = q + q / 2 ^ 50" by (simp add: algebra_simps)
  moreover have "q / 2 ^ 50 < 1" using q l by simp
  ultimately have r2: "y4 < q + 1" using d2 by linarith
  show ?thesis using y1(1) y2(1) y3(1) y4(1) r1 r2 unfolding a_def by blast
qed

lemma round_half_even_le_int:
  assumes "x \<le> of_int n"
  shows "round_half_even x \<le> n"
proof -
  have f: "of_int \<lfloor>x\<rfloor> \<le> x" "x < of_int \<lfloor>x\<rfloor> + 1" using floor_correct [of x] by simp_all
  have fn: "\<lfloor>x\<rfloor> \<le> n" using assms by (simp add: floor_le_iff)
  show ?thesis
  proof (cases "\<lfloor>x\<rfloor> = n")
    case True
    then have "x = of_int \<lfloor>x\<rfloor>" using f(1) assms by simp
    then have "x - of_int \<lfloor>x\<rfloor> = 0" by simp
    then show ?thesis using True unfolding round_half_even_def Let_def by simp
  next
    case False
    then have "\<lfloor>x\<rfloor> + 1 \<le> n" using fn by simp
    then show ?thesis using fn unfolding round_half_even_def Let_def by simp
  qed
qed

lemma fl64_le_multiple:
  assumes x: "0 < x" and b: "x \<le> of_int k * pow2 j"
    and j: "max (floor_log2 x - 52) (- 1074) \<le> j" and r: "of_int k * pow2 j < pow2 1024"
  shows "\<exists>y. fl64 x = Fin y \<and> 0 \<le> y \<and> y \<le> of_int k * pow2 j"
proof -
  define e where "e = max (floor_log2 x - 52) (- 1074)"
  define m where "m = round_half_even (x / pow2 e)"
  define y where "y = of_int m * pow2 e"
  have pe: "0 < pow2 e" by (rule pow2_pos)
  have ax: "\<bar>x\<bar> = x" using x by simp
  have "pow2 j = pow2 (j - e) * pow2 e" using pow2_add [of "j - e" e] by simp
  moreover have "pow2 (j - e) = of_int (2 ^ nat (j - e))" using j by (simp add: pow2_def e_def)
  ultimately have bj: "of_int k * pow2 j = of_int (k * 2 ^ nat (j - e)) * pow2 e" by simp
  have "x / pow2 e \<le> of_int (k * 2 ^ nat (j - e))"
    using b pe unfolding bj by (simp add: field_simps)
  then have "m \<le> k * 2 ^ nat (j - e)" unfolding m_def by (rule round_half_even_le_int)
  then have "rat_of_int m \<le> of_int (k * 2 ^ nat (j - e))" by (simp only: of_int_le_iff)
  then have yb: "y \<le> of_int k * pow2 j"
    unfolding bj y_def using pe by (intro mult_right_mono) simp_all
  have "0 \<le> x / pow2 e" using x pe by simp
  then have "0 \<le> m" unfolding m_def by (rule round_half_even_nonneg)
  then have y0: "0 \<le> y" using pe by (simp add: y_def)
  have "\<not> pow2 1024 \<le> \<bar>y\<bar>" using y0 yb r by simp
  then have "fl64 x = Fin y"
    using x by (simp add: fl64_def Let_def ax e_def [symmetric] m_def [symmetric] y_def [symmetric])
  then show ?thesis using y0 yb by blast
qed

lemma floor_log2_less:
  assumes "0 < x" and "x < pow2 n"
  shows "floor_log2 x < n"
proof -
  from floor_log2_bounds [OF assms(1)] have "pow2 (floor_log2 x) < pow2 n" using assms(2) by simp
  then show ?thesis by (simp add: pow2_less_iff)
qed

lemma fl64_unit_interval:
  assumes "0 \<le> x" and "x \<le> 1"
  shows "\<exists>y. fl64 x = Fin y \<and> 0 \<le> y \<and> y \<le> 1"
proof (cases "x = 0")
  case True
  then show ?thesis by simp
next
  case False
  then have x: "0 < x" using assms(1) by simp
  have "floor_log2 x < 1" using x assms(2) by (intro floor_log2_less) (simp_all add: pow2_def)
  then have "max (floor_log2 x - 52) (- 1074) \<le> 0" by simp
  from fl64_le_multiple [of x 1 0, OF x _ this] assms(2) show ?thesis
    by (simp add: pow2_def)
qed

lemma fl64_percent:
  assumes "0 \<le> x" and "x \<le> 100"
  shows "\<exists>y. fl64 x = Fin y \<and> 0 \<le> y \<and> y \<le> 100"
proof (cases "x = 0")
  case True
  then show ?thesis by simp
next
  case False
  then have x: "0 < x" using assms(1) by simp
  have "floor_log2 x < 7" using x assms(2) by (intro floor_log2_less) (simp_all add: pow2_def)
  then have "max (floor_log2 x - 52) (- 1074) \<le> 2" by simp
  from fl64_le_multiple [of x 25 2, OF x _ this] assms(2) show ?thesis
    by (simp add: pow2_def)
qed

lemma fl64_pos:
  assumes "1 \<le> x"
  shows "js_less (Fin 0) (fl64 x)"
proof -
  have x: "0 < x" "x \<noteq> 0" using assms by simp_all
  from fl64_cases [OF x(2)] obtain y where
    y: "\<bar>y - x\<bar> \<le> pow2 (max (floor_log2 \<bar>x\<bar> - 52) (- 1074)) / 2"
      "fl64 x = (if pow2 1024 \<le> \<bar>y\<bar> then (if 0 < x then PosInf else NegInf) else Fin y)"
    by blast
  have ax: "\<bar>x\<bar> = x" using x by simp
  have "pow2 0 < pow2 (floor_log2 x + 1)"
    using floor_log2_bounds [OF x(1)] assms by (simp add: pow2_def)
  then have e0: "0 \<le> floor_log2 x" by (simp add: pow2_less_iff)
  then have m: "max (floor_log2 x - 52) (- 1074) = floor_log2 x + (- 52)" by simp
  have "pow2 (floor_log2 x + (- 52)) / 2 = pow2 (floor_log2 x) / 2 ^ 53"
    unfolding pow2_add by (simp add: pow2_def)
  also have "\<dots> \<le> x / 2 ^ 53" using floor_log2_bounds [OF x(1)] by (simp add: divide_right_mono)
  also have "\<dots> < x" using x(1) by simp
  finally have "\<bar>y - x\<bar> < x" using y(1) unfolding ax m by simp
  then have "0 < y" by linarith
  then show ?thesis using y(2) x(1) by simp
qed

text \<open>The four roundings on the way from offset 1 of 3 to a percentage and back.\<close>

lemma floor_rat_numeral [simp]:
  "\<lfloor>(numeral a :: rat) / numeral b\<rfloor> = numeral a div numeral b"
  using floor_divide_of_int_eq [of "numeral a" "numeral b", where ?'a = rat] by simp

lemma fl64_third: "fl64 (1 / 3) = Fin (6004799503160661 / 18014398509481984)"
  using fl64_cert [of "- 54" "1 / 3" 6004799503160661] by (simp add: pow2_def)

lemma fl64_third_100:
  "fl64 (6004799503160661 / 18014398509481984 * 100) = Fin (2345624805922133 / 70368744177664)"
  using fl64_cert [of "- 47" "6004799503160661 / 18014398509481984 * 100" 4691249611844266]
  by (simp add: pow2_def)

lemma fl64_third_back:
  "fl64 (2345624805922133 / 70368744177664 / 100) = Fin (1501199875790165 / 4503599627370496)"
  using fl64_cert [of "- 54" "2345624805922133 / 70368744177664 / 100" 6004799503160660]
  by (simp add: pow2_def)

lemma fl64_third_3:
  "fl64 (1501199875790165 / 4503599627370496 * 3) = Fin (4503599627370495 / 4503599627370496)"
  using fl64_cert [of "- 53" "1501199875790165 / 4503599627370496 * 3" 9007199254740990]
  by (simp add: pow2_def)

section \<open>The library store\<close>

lemma length_filter_eq_iff: "length (filter P xs) = length xs \<longleftrightarrow> (\<forall>x \<in> set xs. P x)"
proof (induction xs)
  case Nil
  then show ?case by simp
next
  case (Cons x xs)
  have le: "length (filter P xs) \<le> length xs" by (rule length_filter_le)
  show ?case
  proof (cases "P x")
    case True
    then show ?thesis using Cons by simp
  next
    case False
    then show ?thesis using le by (simp del: length_filter_le)
  qed
qed

text \<open>
  C10. \<open>removeFile(id)\<close> returns true exactly when the stored library holds an item with
  that id; then the library written back is the original without the items of that id, the
  others in their order, and otherwise nothing is written.
\<close>

theorem removeFile_spec:
  "(fst (removeFile i st) \<longleftrightarrow> (\<exists>f \<in> set (stored st). fd_id f = i)) \<and>
   (fst (removeFile i st) \<longrightarrow>
      stored (snd (removeFile i st)) = filter (\<lambda>f. fd_id f \<noteq> i) (stored st) \<and>
      writes (snd (removeFile i st)) = Suc (writes st)) \<and>
   (\<not> fst (removeFile i st) \<longrightarrow> snd (removeFile i st) = st)"
  by (auto simp: removeFile_def getLibrary_def saveLibrary_def Let_def length_filter_eq_iff)

theorem removeFile_spec_witness:
  "fst (removeFile ''a'' store_ab) \<and>
   stored (snd (removeFile ''a'' store_ab)) = [mk_file ''b''] \<and>
   writes (snd (removeFile ''a'' store_ab)) = 1 \<and>
   \<not> fst (removeFile ''c'' store_ab) \<and> snd (removeFile ''c'' store_ab) = store_ab"
  using removeFile_spec [of "''a''" store_ab] removeFile_spec [of "''c''" store_ab]
  by (simp add: store_ab_def mk_file_def)






section \<open>Playback position\<close>

text \<open>
  C8. When \<open>togglePlayPause\<close> runs while nothing is playing, the collaborator is not paused
  and the extracted text is not empty, it returns normally and the one text it hands to the
  collaborator (none where speech synthesis is not supported) is
  \<open>extractedText.slice(currentPosition)\<close>, the rest of the text from the offset on when the
  position is a character offset.
\<close>

theorem togglePlayPause_speaks_slice:
  assumes "\<not> isPlaying t" and "synth t = Some sy" and "\<not> paused sy" and "txt \<noteq> []"
  shows "\<exists>t'. togglePlayPause txt t = Inr t' \<and>
           handed t' = handed t @
             (if tts_supported t then [slice_from txt (currentPosition t)] else []) \<and>
           (\<forall>p. currentPosition t = of_length p \<longrightarrow>
                slice_from txt (currentPosition t) = drop p txt)"
proof -
  have d: "\<forall>p. currentPosition t = of_length p \<longrightarrow>
                slice_from txt (currentPosition t) = drop p txt"
    by (auto simp: of_length_def trunc_def Let_def min_def)
  show ?thesis
  proof (cases "tts_supported t")
    case True
    then show ?thesis using assms d
      by (simp add: togglePlayPause_def speak_def handed_def)
  next
    case False
    then show ?thesis using assms d
      by (simp add: togglePlayPause_def handed_def)
  qed
qed

theorem togglePlayPause_speaks_slice_witness:
  "\<not> isPlaying tts_hello \<and> synth tts_hello = Some synth_idle \<and> \<not> paused synth_idle \<and>
   ''hello'' \<noteq> [] \<and>
   (\<exists>t'. togglePlayPause ''hello'' tts_hello = Inr t' \<and> handed t' = [''llo''])"
proof -
  have h: "\<not> isPlaying tts_hello" "synth tts_hello = Some synth_idle" "\<not> paused synth_idle"
    "''hello'' \<noteq> []"
    by (simp_all add: tts_hello_def synth_idle_def)
  from togglePlayPause_speaks_slice [OF h] obtain t' where
    t: "togglePlayPause ''hello'' tts_hello = Inr t'"
       "handed t' = handed tts_hello @
          (if tts_supported tts_hello then [slice_from ''hello'' (currentPosition tts_hello)] else [])"
    by blast
  have "handed t' = [''llo'']"
    unfolding t(2) by (simp add: tts_hello_def synth_idle_def handed_def trunc_def)
  then show ?thesis using h t(1) by blast
qed

lemma setPosition_position:
  "currentPosition (setPosition position t) =
     Math_max (Fin 0) (Math_min position (of_length (textLength t)))"
  "textLength (setPosition position t) = textLength t"
  by (simp_all add: setPosition_def updateProgress_def Let_def)

lemma setPosition_in_text:
  "position \<noteq> NaN \<Longrightarrow> in_text (currentPosition (setPosition position t)) (textLength t)"
  by (cases position) (auto simp: setPosition_position of_length_def)

text \<open>
  C9. For every real \<open>n\<close>, \<open>setPosition(n)\<close> leaves
  \<open>currentPosition = max(0, min(n, textLength))\<close>, a position in the text; and \<open>seek\<close> by
  any finite amount keeps a position that lies in the text in it.
\<close>

theorem setPosition_clamps:
  "currentPosition (setPosition (Fin n) t) = Fin (max 0 (min n (of_nat (textLength t)))) \<and>
   textLength (setPosition (Fin n) t) = textLength t \<and>
   in_text (currentPosition (setPosition (Fin n) t)) (textLength (setPosition (Fin n) t)) \<and>
   (in_text (currentPosition t) (textLength t) \<and> \<bar>a\<bar> < pow2 1024 \<longrightarrow>
      in_text (currentPosition (seek (Fin a) t)) (textLength (seek (Fin a) t)))"
proof (intro conjI impI)
  show "currentPosition (setPosition (Fin n) t) = Fin (max 0 (min n (of_nat (textLength t))))"
    by (auto simp: setPosition_position of_length_def max_def min_def)
  show "textLength (setPosition (Fin n) t) = textLength t" by (simp add: setPosition_position)
  show "in_text (currentPosition (setPosition (Fin n) t)) (textLength (setPosition (Fin n) t))"
    using setPosition_in_text [of "Fin n" t] by (simp add: setPosition_position)
next
  assume a: "in_text (currentPosition t) (textLength t) \<and> \<bar>a\<bar> < pow2 1024"
  then obtain c where c: "currentPosition t = Fin c" by (cases "currentPosition t") auto
  have "\<bar>a / 100\<bar> < pow2 1023" using a by (simp add: pow2_def)
  then obtain q where q: "fl64 (a / 100) = Fin q" using fl64_finite by blast
  have "js_add (Fin c) (fl64 (of_nat (textLength t) * q)) \<noteq> NaN"
    using fl64_not_NaN [of "of_nat (textLength t) * q"]
    by (cases "fl64 (of_nat (textLength t) * q)") (simp_all add: fl64_not_NaN)
  then have "in_text (currentPosition (seek (Fin a) t)) (textLength t)"
    unfolding seek_def Let_def using c q
    by (simp add: of_length_def setPosition_in_text)
  then show "in_text (currentPosition (seek (Fin a) t)) (textLength (seek (Fin a) t))"
    by (simp add: seek_def Let_def setPosition_position)
qed

theorem setPosition_clamps_witness:
  "in_text (currentPosition tts_hello) (textLength tts_hello) \<and> \<bar>- 10\<bar> < pow2 1024 \<and>
   in_text (currentPosition (seek (Fin (- 10)) tts_hello))
     (textLength (seek (Fin (- 10)) tts_hello)) \<and>
   currentPosition (setPosition (Fin 25) tts_hello) = Fin 5 \<and>
   currentPosition (setPosition (Fin (- 4)) tts_hello) = Fin 0"
  using setPosition_clamps [of 25 tts_hello "- 10"] setPosition_clamps [of "- 4" tts_hello "- 10"]
  by (simp add: tts_hello_def pow2_def)

section \<open>Extraction\<close>

lemma those_map_Some: "those (map Some xs) = Some xs"
  by (induction xs) simp_all

lemma all_pages_resolve:
  "map (extractPageText doc) [1 ..< Suc (length doc)] = map Some doc"
proof (rule nth_equalityI)
  show "length (map (extractPageText doc) [1 ..< Suc (length doc)]) = length (map Some doc)"
    by (simp del: upt_Suc)
next
  fix i
  assume "i < length (map (extractPageText doc) [1 ..< Suc (length doc)])"
  then have i: "i < length doc" by (simp del: upt_Suc)
  then have "[1 ..< Suc (length doc)] ! i = Suc i" by (simp del: upt_Suc)
  then show "map (extractPageText doc) [1 ..< Suc (length doc)] ! i = map Some doc ! i"
    using i by (simp add: extractPageText_def del: upt_Suc)
qed

lemma extract_loop_text:
  "extractedText (extract_loop start i ts h) =
     extractedText h @ concat (map (\<lambda>t. t @ [nl, nl]) ts)"
  by (induction ts arbitrary: i h) simp_all

lemma extract_loop_pages:
  "map pg_text (pages (extract_loop start i ts h)) = map pg_text (pages h) @ ts"
  by (induction ts arbitrary: i h) simp_all

lemma join_blank_lines_trailing:
  "ts \<noteq> [] \<Longrightarrow> concat (map (\<lambda>t. t @ [nl, nl]) ts) = join_blank_lines ts @ [nl, nl]"
  by (induction ts rule: join_blank_lines.induct) simp_all

lemma extractText_loaded:
  assumes "pdfDoc h = Some ts" and "totalPages h = length ts"
  shows "extractText no_options h =
           (Inr (concat (map (\<lambda>t. t @ [nl, nl]) ts)),
            extract_loop 1 0 ts (h\<lparr>extractedText := [], pages := []\<rparr>))"
proof -
  have "those (map (extractPageText ts) [1 ..< Suc (length ts)]) = Some ts"
    by (simp only: all_pages_resolve those_map_Some)
  then show ?thesis
    using assms by (simp add: extractText_def no_options_def Let_def extract_loop_text)
qed

text \<open>
  C5 as stated fails: for a document of the one page \<open>a\<close>, \<open>extractText\<close> does not return
  the joined page texts, which are \<open>a\<close> itself.
\<close>

theorem extractText_counterexample:
  "fst (extractText no_options pdf_one_page) \<noteq> Inr (join_blank_lines [''a''])"
  using extractText_loaded [of pdf_one_page "[''a'']"]
  by (simp add: pdf_one_page_def pdf_empty_def)

text \<open>
  C5, amended. For a loaded document with page texts \<open>t1, ..., tn\<close>, \<open>extractText\<close> returns and
  stores every page text followed by a blank-line separator, the last one too: the joined
  page texts and one more separator when there is a page.
\<close>

theorem extractText_separator_after_every_page:
  assumes "pdfDoc h = Some ts" and "totalPages h = length ts"
  shows "fst (extractText no_options h) = Inr (concat (map (\<lambda>t. t @ [nl, nl]) ts)) \<and>
         extractedText (snd (extractText no_options h)) = concat (map (\<lambda>t. t @ [nl, nl]) ts) \<and>
         map pg_text (pages (snd (extractText no_options h))) = ts \<and>
         (ts \<noteq> [] \<longrightarrow>
            fst (extractText no_options h) = Inr (join_blank_lines ts @ [nl, nl]))"
  unfolding extractText_loaded [OF assms]
  by (simp add: extract_loop_text extract_loop_pages join_blank_lines_trailing)

theorem extractText_separator_after_every_page_witness:
  "pdfDoc pdf_one_page = Some [''a''] \<and> totalPages pdf_one_page = length [''a''] \<and>
   [''a''] \<noteq> ([] :: string list) \<and>
   fst (extractText no_options pdf_one_page) = Inr [CHR ''a'', nl, nl]"
  using extractText_separator_after_every_page [of pdf_one_page "[''a'']"]
  by (simp add: pdf_one_page_def pdf_empty_def)

section \<open>The item ceiling\<close>



lemma canAdd_free:
  "canAdd (canAddFile False st) \<Longrightarrow> length (stored st) < 5"
proof (rule ccontr)
  assume c: "canAdd (canAddFile False st)" and "\<not> length (stored st) < 5"
  then have "5 + - rat_of_nat (length (stored st)) \<le> 0" by simp
  then have "\<not> js_less (Fin 0) (fl64 (5 + - rat_of_nat (length (stored st))))"
    by (rule fl64_nonpos)
  then show False using c
    by (simp add: canAddFile_def getLibrary_def MAX_FREE_ITEMS_def js_sub_def js_greater_def
        of_length_def Let_def)
qed

lemma canAdd_free_iff: "canAdd (canAddFile False st) \<longleftrightarrow> length (stored st) < 5"
proof
  assume "canAdd (canAddFile False st)"
  then show "length (stored st) < 5" by (rule canAdd_free)
next
  assume "length (stored st) < 5"
  then have "1 \<le> 5 + - rat_of_nat (length (stored st))"
    by (simp add: le_diff_eq)
  then have "js_less (Fin 0) (fl64 (5 + - rat_of_nat (length (stored st))))" by (rule fl64_pos)
  then show "canAdd (canAddFile False st)"
    by (simp add: canAddFile_def getLibrary_def MAX_FREE_ITEMS_def js_sub_def js_greater_def
        of_length_def Let_def)
qed








text \<open>The first upload into the empty library, for a PDF that parses.\<close>

lemma processFile_first_upload:
  "processFile False True (Some doc) g now pdf_file app_empty =
     app_empty
       \<lparr>pdf := extract_loop 1 0 doc
                (pdf_empty\<lparr>currentFile := Some pdf_file, pdfDoc := Some doc,
                           totalPages := length doc, extractedText := [], pages := []\<rparr>),
        lib := \<lparr>stored = [createFileData pdf_file
                            (cleanText (concat (map (\<lambda>t. t @ [nl, nl]) doc))) g now],
                writes = 1\<rparr>,
        tts := loadText (cleanText (concat (map (\<lambda>t. t @ [nl, nl]) doc))) tts_hello\<rparr>"
proof -
  have c: "canAdd (canAddFile False (lib app_empty))"
    by (simp add: canAdd_free_iff app_empty_def empty_store_def)
  have l: "loadPDF True (Some doc) pdf_file (pdf app_empty) =
      (Inr \<lparr>pd_name = fi_name pdf_file, pd_size = fi_size pdf_file, pd_pages = length doc\<rparr>,
       pdf_empty\<lparr>currentFile := Some pdf_file, pdfDoc := Some doc, totalPages := length doc\<rparr>)"
    by (simp add: loadPDF_def Let_def app_empty_def)
  have e: "extractText no_options
      (pdf_empty\<lparr>currentFile := Some pdf_file, pdfDoc := Some doc, totalPages := length doc\<rparr>) =
      (Inr (concat (map (\<lambda>t. t @ [nl, nl]) doc)),
       extract_loop 1 0 doc
         (pdf_empty\<lparr>currentFile := Some pdf_file, pdfDoc := Some doc, totalPages := length doc,
                    extractedText := [], pages := []\<rparr>))"
    using extractText_loaded [of "pdf_empty\<lparr>currentFile := Some pdf_file, pdfDoc := Some doc,
      totalPages := length doc\<rparr>" doc] by simp
  have p: "isPDFFile pdf_file" by (simp add: isPDFFile_def pdf_file_def)
  have a: "snd (addFile f (lib app_empty)) = \<lparr>stored = [f], writes = 1\<rparr>" for f
    by (simp add: addFile_def getLibrary_def saveLibrary_def app_empty_def empty_store_def)
  show ?thesis
    using c p by (simp add: processFile_def Let_def l e a) (simp add: app_empty_def)
qed

lemma clean_two_pages: "cleanText (concat (map (\<lambda>t. t @ [nl, nl]) [''a'', ''b''])) = ''a b''"
  by (simp add: cleanText_def is_ws_def is_line_term_def trim_def)

lemma clean_blank_page: "cleanText (concat (map (\<lambda>t. t @ [nl, nl]) [''''])) = ''''"
  by (simp add: cleanText_def is_ws_def is_line_term_def trim_def)

section \<open>Progress\<close>

text \<open>On a text that is not empty the three paths report a percentage.\<close>

lemma percentage_in_range:
  assumes "0 < n" and "p \<le> n"
  shows "\<exists>y. js_mul (js_div (of_length p) (of_length n)) (Fin 100) = Fin y \<and> 0 \<le> y \<and> y \<le> 100"
proof -
  have "0 \<le> rat_of_nat p / of_nat n" "rat_of_nat p / of_nat n \<le> 1" using assms by simp_all
  from fl64_unit_interval [OF this] obtain y1 where
    y1: "fl64 (of_nat p / of_nat n) = Fin y1" "0 \<le> y1" "y1 \<le> 1" by blast
  have "0 \<le> y1 * 100" "y1 * 100 \<le> 100" using y1(2,3) by simp_all
  from fl64_percent [OF this] obtain y2 where
    "fl64 (y1 * 100) = Fin y2" "0 \<le> y2" "y2 \<le> 100" by blast
  then show ?thesis using y1(1) assms(1) by (simp add: of_length_def)
qed

lemma progress_in_range:
  assumes "0 < textLength t" and "p \<le> textLength t"
  shows "\<exists>y. reportedProgress (setPosition (of_length p) t) = Fin y \<and> 0 \<le> y \<and> y \<le> 100"
    and "\<exists>y. reportedProgress (onboundary ''word'' p t) = Fin y \<and> 0 \<le> y \<and> y \<le> 100"
proof -
  have c: "Math_max (Fin 0) (Math_min (of_length p) (of_length (textLength t))) = of_length p"
    using assms(2) by (simp add: of_length_def)
  show "\<exists>y. reportedProgress (setPosition (of_length p) t) = Fin y \<and> 0 \<le> y \<and> y \<le> 100"
    using percentage_in_range [OF assms]
    by (simp add: setPosition_def updateProgress_def Let_def c)
  show "\<exists>y. reportedProgress (onboundary ''word'' p t) = Fin y \<and> 0 \<le> y \<and> y \<le> 100"
    using percentage_in_range [OF assms]
    by (simp add: onboundary_def updateProgress_def Let_def)
qed

lemma getProgressAtPosition_in_range:
  assumes "p \<le> length (extractedText h)"
  shows "\<exists>y. getProgressAtPosition (of_length p) h = Fin y \<and> 0 \<le> y \<and> y \<le> 100"
proof (cases "length (extractedText h) = 0")
  case True
  then show ?thesis by (simp add: getProgressAtPosition_def)
next
  case False
  then have "0 < length (extractedText h)" by simp
  from percentage_in_range [OF this assms] show ?thesis using False
    by (simp add: getProgressAtPosition_def)
qed

lemma seek_empty_text:
  assumes "textLength t = 0" and "currentPosition t = Fin 0" and "\<bar>a\<bar> < pow2 1024"
  shows "reportedProgress (seek (Fin a) t) = NaN"
proof -
  have "\<bar>a / 100\<bar> < pow2 1023" using assms(3) by (simp add: pow2_def)
  then obtain q where q: "fl64 (a / 100) = Fin q" using fl64_finite by blast
  show ?thesis
    using assms(1,2) q
    by (simp add: seek_def setPosition_def updateProgress_def of_length_def Let_def)
qed

text \<open>
  C1 at the empty text. A PDF whose one page has no text is cached and loaded as the empty
  text; on it \<open>seek(10)\<close>, \<open>setPosition(0)\<close> and the boundary handler report
  \<open>0 / 0 * 100\<close>, which is \<open>NaN\<close> and no percentage, where \<open>getProgressAtPosition\<close> returns
  \<open>0\<close>.
\<close>

theorem progress_of_empty_text:
  "textLength (tts (processFile False True (Some ['''']) ''id1'' ''t1'' pdf_file app_empty)) = 0 \<and>
   reportedProgress
     (seek (Fin 10) (tts (processFile False True (Some ['''']) ''id1'' ''t1'' pdf_file app_empty))) =
     NaN \<and>
   reportedProgress (setPosition (Fin 0) (loadText [] tts_hello)) = NaN \<and>
   reportedProgress (onboundary ''word'' 0 (loadText [] tts_hello)) = NaN \<and>
   getProgressAtPosition (Fin 0) pdf_empty = Fin 0"
proof -
  have t: "tts (processFile False True (Some ['''']) ''id1'' ''t1'' pdf_file app_empty) =
      loadText [] tts_hello"
    unfolding processFile_first_upload clean_blank_page by simp
  have "reportedProgress (seek (Fin 10) (loadText [] tts_hello)) = NaN"
    by (rule seek_empty_text) (simp_all add: loadText_def pow2_def)
  then show ?thesis
    unfolding t
    by (simp add: setPosition_def onboundary_def loadText_def updateProgress_def of_length_def
        getProgressAtPosition_def pdf_empty_def tts_hello_def)
qed

text \<open>
  C2 as stated fails: for a text of length 3, offset 1 maps to the percentage
  \<open>33.33333333333333\<close> and that percentage back to offset 0, the product
  \<open>0.3333333333333333 * 3\<close> being rounded below 1 before \<open>Math.floor\<close>.
\<close>

theorem position_roundtrip_counterexample:
  "getPositionAtProgress (getProgressAtPosition (of_length 1) pdf_abc) pdf_abc \<noteq> of_length 1"
proof -
  have "getProgressAtPosition (of_length 1) pdf_abc = Fin (2345624805922133 / 70368744177664)"
    using fl64_third fl64_third_100
    by (simp add: getProgressAtPosition_def pdf_abc_def pdf_empty_def of_length_def)
  moreover have "getPositionAtProgress (Fin (2345624805922133 / 70368744177664)) pdf_abc = Fin 0"
    using fl64_third_back fl64_third_3
    by (simp add: getPositionAtProgress_def pdf_abc_def pdf_empty_def of_length_def)
  ultimately show ?thesis by (simp add: of_length_def)
qed

text \<open>
  C2, amended. For every extracted text of length \<open>L\<close> with \<open>0 < L < 2^50\<close> and every offset
  \<open>p\<close> with \<open>0 \<le> p \<le> L\<close>, \<open>getPositionAtProgress(getProgressAtPosition(p))\<close> is \<open>p\<close> or
  \<open>p - 1\<close>: the four roundings on the way keep the product within one of \<open>p\<close>.
\<close>

theorem position_roundtrip_within_one:
  assumes "0 < length (extractedText h)" and "length (extractedText h) < 2 ^ 50"
    and "p \<le> length (extractedText h)"
  shows "getPositionAtProgress (getProgressAtPosition (of_length p) h) h = of_length p \<or>
         getPositionAtProgress (getProgressAtPosition (of_length p) h) h = Fin (of_nat p - 1)"
proof (cases "p = 0")
  case True
  then show ?thesis using assms(1)
    by (simp add: getPositionAtProgress_def getProgressAtPosition_def of_length_def)
next
  case False
  define l :: rat where "l = of_nat (length (extractedText h))"
  define q :: rat where "q = of_nat p"
  have q1: "1 \<le> q" using False by (simp add: q_def)
  have ql: "q \<le> l" using assms(3) by (simp add: q_def l_def)
  have "rat_of_nat (length (extractedText h)) < of_nat (2 ^ 50)"
    using assms(2) by (simp only: of_nat_less_iff)
  then have l50: "l < 2 ^ 50" by (simp add: l_def)
  have l0: "l \<noteq> 0" using q1 ql by simp
  from roundtrip_bounds [OF q1 ql l50] obtain y1 y2 y3 y4 where
    y: "fl64 (q / l) = Fin y1" "fl64 (y1 * 100) = Fin y2" "fl64 (y2 / 100) = Fin y3"
       "fl64 (y3 * l) = Fin y4" "q - 1 \<le> y4" "y4 < q + 1"
    by blast
  have r: "getPositionAtProgress (getProgressAtPosition (of_length p) h) h = Fin (of_int \<lfloor>y4\<rfloor>)"
    using assms(1) l0 y(1-4)
    by (simp add: getPositionAtProgress_def getProgressAtPosition_def of_length_def
        l_def [symmetric] q_def [symmetric])
  have "rat_of_int (int p - 1) \<le> y4" using y(5) by (simp add: q_def)
  then have f1: "int p - 1 \<le> \<lfloor>y4\<rfloor>" by (simp only: le_floor_iff)
  have "y4 < rat_of_int (int p + 1)" using y(6) by (simp add: q_def)
  then have f2: "\<lfloor>y4\<rfloor> < int p + 1" by (simp only: floor_less_iff)
  from f1 f2 have "\<lfloor>y4\<rfloor> = int p \<or> \<lfloor>y4\<rfloor> = int p - 1" by linarith
  then show ?thesis unfolding r by (auto simp: of_length_def)
qed

theorem position_roundtrip_within_one_witness:
  "0 < length (extractedText pdf_abc) \<and> length (extractedText pdf_abc) < 2 ^ 50 \<and>
   1 \<le> length (extractedText pdf_abc) \<and>
   (getPositionAtProgress (getProgressAtPosition (of_length 1) pdf_abc) pdf_abc = of_length 1 \<or>
    getPositionAtProgress (getProgressAtPosition (of_length 1) pdf_abc) pdf_abc = Fin (of_nat 1 - 1))"
  using position_roundtrip_within_one [of pdf_abc 1]
  by (simp add: pdf_abc_def pdf_empty_def)

section \<open>Reloading from the library\<close>

text \<open>
  C6 at two inputs. \<open>processFile\<close> caches the cleaned text, in which no separator is left:
  the PDF with the pages \<open>a\<close> and \<open>b\<close> is stored with the text \<open>a b\<close> and reloads as that one
  page. An item holding what \<open>extractText\<close> returns for the one page \<open>a\<close> reloads as two
  pages, \<open>a\<close> and an empty one, because of the separator after the last page.
\<close>

theorem loadFromLibrary_page_count:
  "stored (lib (processFile False True (Some [''a'', ''b'']) ''id1'' ''t1'' pdf_file app_empty)) =
     [createFileData pdf_file ''a b'' ''id1'' ''t1''] \<and>
   map pg_text (pages (fst (loadFromLibrary (createFileData pdf_file ''a b'' ''id1'' ''t1'')
      pdf_empty tts_hello))) = [''a b''] \<and>
   totalPages (fst (loadFromLibrary (createFileData pdf_file ''a b'' ''id1'' ''t1'')
      pdf_empty tts_hello)) = 1 \<and>
   map pg_text (pages (fst (loadFromLibrary
      ((mk_file ''x'')\<lparr>fd_text := extractedText (snd (extractText no_options pdf_one_page))\<rparr>)
      pdf_empty tts_hello))) = [''a'', ''''] \<and>
   totalPages (fst (loadFromLibrary
      ((mk_file ''x'')\<lparr>fd_text := extractedText (snd (extractText no_options pdf_one_page))\<rparr>)
      pdf_empty tts_hello)) = 2"
proof -
  have e1: "extractedText (snd (extractText no_options pdf_one_page)) = [CHR ''a'', nl, nl]"
    using extractText_loaded [of pdf_one_page "[''a'']"]
    by (simp add: pdf_one_page_def pdf_empty_def extract_loop_text)
  have s1: "split_blank [CHR ''a'', nl, nl] = [''a'', '''']" by simp
  have s2: "split_blank ''a b'' = [''a b'']" by simp
  have p: "stored (lib (processFile False True (Some [''a'', ''b'']) ''id1'' ''t1'' pdf_file
      app_empty)) = [createFileData pdf_file ''a b'' ''id1'' ''t1'']"
    unfolding processFile_first_upload clean_two_pages by simp
  show ?thesis
    unfolding e1 p
    by (simp add: loadFromLibrary_def Let_def s1 s2 mk_file_def pdf_empty_def enumerate_eq_zip
        trim_def is_ws_def createFileData_def)
qed

section \<open>Registration and login\<close>

text \<open>
  With an email that \<open>trim\<close> leaves as it is, a registration that succeeds is followed by a
  login that succeeds; an email that matches no user is refused.
\<close>

lemma lower_char_idem: "lower_char (lower_char c) = lower_char c"
proof -
  define n where "n = (of_char c :: nat)"
  have n: "n < 256" unfolding n_def by simp
  show ?thesis
  proof (cases "(65 \<le> n \<and> n \<le> 90) \<or> (192 \<le> n \<and> n \<le> 222 \<and> n \<noteq> 215)")
    case True
    then have l: "lower_char c = char_of (n + 32)" unfolding lower_char_def Let_def n_def by auto
    have "(of_char (char_of (n + 32)) :: nat) = n + 32" using True by auto
    then show ?thesis unfolding l using True by (auto simp: lower_char_def Let_def)
  next
    case False
    then have "lower_char c = c" unfolding lower_char_def Let_def n_def by auto
    then show ?thesis by simp
  qed
qed

lemma toLowerCase_idem: "toLowerCase (toLowerCase s) = toLowerCase s"
  by (simp add: toLowerCase_def lower_char_idem)

lemma find_append_None: "find P xs = None \<Longrightarrow> find P (xs @ ys) = find P ys"
  by (induction xs) (auto split: if_splits)

lemma register_then_login_trimmed:
  assumes "trim email = email"
    and "fst (register name email password g now st) = Inr u"
  shows "fst (login email password (snd (register name email password g now st))) = Inr u"
proof -
  have n: "findUserByEmail email st = None"
    using assms(2) by (auto simp: register_def split: if_splits)
  define newUser where "newUser = \<lparr>u_id = g, u_name = trim name,
      u_email = toLowerCase (trim email), u_password = hashPassword password,
      u_createdAt = now, u_isPremium = False, u_premiumExpiresAt = None\<rparr>"
  have r: "register name email password g now st =
      (Inr newUser, setCurrentUser newUser (st\<lparr>users := users st @ [newUser]\<rparr>))"
    using n by (simp add: register_def Let_def newUser_def)
  have u: "u = newUser" using assms(2) unfolding r by simp
  have "findUserByEmail email (setCurrentUser newUser (st\<lparr>users := users st @ [newUser]\<rparr>)) =
      Some newUser"
    using n assms(1)
    by (simp add: findUserByEmail_def setCurrentUser_def find_append_None newUser_def
        toLowerCase_idem)
  then show ?thesis
    unfolding r u by (simp add: login_def verifyPassword_def newUser_def)
qed

lemma login_unknown_email:
  "findUserByEmail email st = None \<Longrightarrow>
     login email password st = (Inl ''Account not found. Please sign up first.'', st)"
  by (simp add: login_def)

text \<open>
  C7 at the email \<open>" a@b.c"\<close>: \<open>register\<close> succeeds on the empty store and stores the trimmed
  address, \<open>login\<close> with the same arguments compares untrimmed and finds no account.
\<close>

theorem register_then_login_fails:
  "(\<exists>u. fst (register ''Ann'' '' a@b.c'' ''secret1'' ''id1'' ''t0'' auth_empty) = Inr u) \<and>
   fst (login '' a@b.c'' ''secret1''
         (snd (register ''Ann'' '' a@b.c'' ''secret1'' ''id1'' ''t0'' auth_empty))) =
     Inl ''Account not found. Please sign up first.''"
  by (simp add: register_def login_def findUserByEmail_def setCurrentUser_def auth_empty_def
      toLowerCase_def lower_char_def trim_def is_ws_def Let_def)

end
